theory Spec2Isabelle
  imports Main "HOL-Library.Multiset" "HOL-Library.AList"
begin

text \<open>
  The plugin answers the command \<^verbatim>\<open>/whentochat\<close> with the hours between 07:00 and
  22:00 that the members of a channel share. The model follows the revision of
  \<^verbatim>\<open>plugin.go\<close> that has the cap on the member count and the compact listing;
  \<^verbatim>\<open>location\<close>, \<^verbatim>\<open>window\<close> and \<^verbatim>\<open>arrangeUserFirst\<close> read the same in the
  revision without them.
\<close>

section \<open>Time, as the plugin uses Go's \<^verbatim>\<open>time\<close> package\<close>

text \<open>
  An instant (\<^verbatim>\<open>time.Time\<close>) is a number of seconds counted from Go's zero
  \<^verbatim>\<open>Time\<close> (January 1 of year 1, 00:00:00 UTC), so the zero value of a
  \<^verbatim>\<open>time.Time\<close> variable is the instant \<open>0\<close>. Every instant the plugin compares
  is either that zero value or a result of \<^verbatim>\<open>time.Date\<close> with zero nanoseconds,
  so whole seconds lose nothing. \<^verbatim>\<open>After\<close>, \<^verbatim>\<open>Before\<close> and \<^verbatim>\<open>Equal\<close>
  compare instants: they are \<open>>\<close>, \<open><\<close> and \<open>=\<close> here.
\<close>

type_synonym instant = int

text \<open>
  A \<^verbatim>\<open>*time.Location\<close> that is not nil. \<open>offset_at\<close> is the offset from UTC, in
  seconds, in force at an instant (what \<^verbatim>\<open>Time.In\<close>, \<^verbatim>\<open>Year\<close>,
  \<^verbatim>\<open>Month\<close>, \<^verbatim>\<open>Day\<close> and \<^verbatim>\<open>Format\<close> read); \<open>abbrev_at\<close> is the zone
  abbreviation in force at an instant; \<open>date_offset\<close> is the offset \<^verbatim>\<open>time.Date\<close>
  settles on for a wall-clock reading (given in seconds, as if it were UTC). For a zone
  without transitions the two offsets are the same constant. A nil location is
  \<open>None\<close> of \<open>Location option\<close>.
\<close>

record Location =
  loc_name :: string
  offset_at :: "instant \<Rightarrow> int"
  abbrev_at :: "instant \<Rightarrow> string"
  date_offset :: "int \<Rightarrow> int"

definition UTC :: Location where
  "UTC = \<lparr>loc_name = ''UTC'', offset_at = (\<lambda>_. 0), abbrev_at = (\<lambda>_. ''UTC''),
           date_offset = (\<lambda>_. 0)\<rparr>"

text \<open>
  What lies outside the plugin: the IANA database \<^verbatim>\<open>time.LoadLocation\<close> reads,
  the server's zone \<^verbatim>\<open>time.Local\<close>, the clock (\<open>Now env i\<close> is what
  \<^verbatim>\<open>time.Now()\<close> returns in iteration \<open>i\<close> of the loop of \<^verbatim>\<open>window\<close>, which
  reads the clock once for every member with a location), and the server's
  \<^verbatim>\<open>GetUsersInChannel\<close> (channel, page, page size), which returns a batch or fails
  with a message.
\<close>

record User =
  Id_user :: string
  Username :: string
  FirstName :: string
  LastName :: string
  IsBot :: bool
  Timezone :: "string \<rightharpoonup> string"

record env =
  tzdata :: "string \<Rightarrow> Location option"
  Local :: Location
  Now :: "nat \<Rightarrow> instant"
  GetUsersInChannel :: "string \<Rightarrow> nat \<Rightarrow> nat \<Rightarrow> string + User list"

text \<open>
  \<^verbatim>\<open>time.LoadLocation\<close>: the names \<^verbatim>\<open>""\<close> and \<^verbatim>\<open>"UTC"\<close> give UTC,
  \<^verbatim>\<open>"Local"\<close> gives \<^verbatim>\<open>time.Local\<close>, any other name is looked up in the
  database; \<open>None\<close> is the error return.
\<close>

definition LoadLocation :: "env \<Rightarrow> string \<Rightarrow> Location option" where
  "LoadLocation env name =
     (if name = '''' \<or> name = ''UTC'' then Some UTC
      else if name = ''Local'' then Some (Local env)
      else tzdata env name)"

text \<open>\<^verbatim>\<open>(*Location).String\<close>: a nil receiver stands for UTC.\<close>

definition String_loc :: "Location option \<Rightarrow> string" where
  "String_loc l = (case l of None \<Rightarrow> ''UTC'' | Some loc \<Rightarrow> loc_name loc)"

text \<open>
  \<^verbatim>\<open>now.Year(), now.Month(), now.Day()\<close> of \<^verbatim>\<open>now := time.Now()\<close>: the
  calendar date of \<open>now\<close> in the server's zone, kept as the number of that day
  (days since the zero instant's day).
\<close>

definition local_day :: "env \<Rightarrow> instant \<Rightarrow> int" where
  "local_day env now = (now + offset_at (Local env) now) div 86400"

text \<open>
  \<^verbatim>\<open>time.Date(y, m, d, hour, 0, 0, 0, loc)\<close> for the date with day number
  \<open>day\<close>: the instant at which the clock of \<open>loc\<close> shows that date and hour.
\<close>

definition time_Date :: "int \<Rightarrow> int \<Rightarrow> Location \<Rightarrow> instant" where
  "time_Date day hour loc =
     (let unix = day * 86400 + hour * 3600 in unix - date_offset loc unix)"

section \<open>Resolving a member's time zone\<close>

text \<open>Indexing a Go \<^verbatim>\<open>map[string]string\<close>: a missing key reads as the empty string.\<close>

definition index_map :: "(string \<rightharpoonup> string) \<Rightarrow> string \<Rightarrow> string" where
  "index_map m k = (case m k of None \<Rightarrow> '''' | Some v \<Rightarrow> v)"

text \<open>\<^verbatim>\<open>strconv.ParseBool\<close>; \<open>None\<close> is the error return.\<close>

definition ParseBool :: "string \<Rightarrow> bool option" where
  "ParseBool str =
     (if str \<in> set [''1'', ''t'', ''T'', ''TRUE'', ''true'', ''True''] then Some True
      else if str \<in> set [''0'', ''f'', ''F'', ''FALSE'', ''false'', ''False''] then Some False
      else None)"

definition useAutomatic :: "User \<Rightarrow> bool" where
  "useAutomatic user =
     (case ParseBool (index_map (Timezone user) ''useAutomaticTimezone'') of
        Some b \<Rightarrow> b
      | None \<Rightarrow> False)"

definition chosen_tz :: "User \<Rightarrow> string" where
  "chosen_tz user =
     (if useAutomatic user then index_map (Timezone user) ''automaticTimezone''
      else index_map (Timezone user) ''manualTimezone'')"

definition location :: "env \<Rightarrow> User \<Rightarrow> Location option" where
  "location env user = LoadLocation env (chosen_tz user)"

section \<open>The shared window\<close>

text \<open>
  One pass of the loop body of \<^verbatim>\<open>window\<close> for a member with location \<open>loc\<close>,
  up to the test that leaves the loop: the bounds \<open>(start, end)\<close> after it.
\<close>

definition window_step :: "env \<Rightarrow> nat \<Rightarrow> Location \<Rightarrow> instant \<times> instant \<Rightarrow> instant \<times> instant" where
  "window_step env i loc se =
     (let now = Now env i;
          userEarliestStart = time_Date (local_day env now) 7 loc;
          userLatestEnd = time_Date (local_day env now) 22 loc;
          (start, end) = (if i = 0 then (userEarliestStart, userLatestEnd) else se);
          start = (if userEarliestStart > start then userEarliestStart else start);
          end = (if userLatestEnd < end then userLatestEnd else end)
      in (start, end))"

fun window_loop :: "env \<Rightarrow> nat \<Rightarrow> User list \<Rightarrow> instant \<times> instant \<Rightarrow> instant \<times> instant \<times> bool" where
  "window_loop env i [] (start, end) = (start, end, True)"
| "window_loop env i (user # users) (start, end) =
     (case location env user of
        None \<Rightarrow> window_loop env (Suc i) users (start, end)
      | Some loc \<Rightarrow>
          (let (start, end) = window_step env i loc (start, end)
           in if start > end \<or> start = end then (start, end, False)
              else window_loop env (Suc i) users (start, end)))"

definition window :: "env \<Rightarrow> User list \<Rightarrow> instant \<times> instant \<times> bool" where
  "window env users = window_loop env 0 users (0, 0)"

text \<open>
  The running intersection by itself: the bounds after every member of a list has gone
  through the loop body, with the test that leaves the loop taken out. It is what the
  statements about the loop's test are measured against.
\<close>

fun running :: "env \<Rightarrow> nat \<Rightarrow> User list \<Rightarrow> instant \<times> instant \<Rightarrow> instant \<times> instant" where
  "running env i [] se = se"
| "running env i (user # users) se =
     (case location env user of
        None \<Rightarrow> running env (Suc i) users se
      | Some loc \<Rightarrow> running env (Suc i) users (window_step env i loc se))"

section \<open>Moving the invoker to the front\<close>

datatype error = Panic string | errMaxChannelMembers | ApiError string | AppError string

text \<open>\<^verbatim>\<open>err.Error()\<close>.\<close>

fun Error_msg :: "error \<Rightarrow> string" where
  "Error_msg (Panic msg) = msg"
| "Error_msg errMaxChannelMembers = ''max channel members''"
| "Error_msg (ApiError msg) = msg"
| "Error_msg (AppError msg) = msg"

fun indexOfUser :: "string \<Rightarrow> nat \<Rightarrow> User list \<Rightarrow> nat" where
  "indexOfUser userID i [] = 0"
| "indexOfUser userID i (user # users) =
     (if Id_user user = userID then i else indexOfUser userID (Suc i) users)"

definition arrangeUserFirst :: "string \<Rightarrow> User list \<Rightarrow> error + User list" where
  "arrangeUserFirst userID users =
     (let k = indexOfUser userID 0 users
      in if k < length users
         then Inr ([users ! k] @ take k users @ drop (k + 1) users)
         else Inl (Panic ''index out of range''))"

section \<open>Rendering\<close>

text \<open>
  \<^verbatim>\<open>(*model.User).GetDisplayName("full_name")\<close> of the server's model package:
  the full name when there is one, the user name otherwise.
\<close>

definition GetFullName :: "User \<Rightarrow> string" where
  "GetFullName u =
     (if FirstName u \<noteq> '''' \<and> LastName u \<noteq> '''' then FirstName u @ '' '' @ LastName u
      else if FirstName u \<noteq> '''' then FirstName u
      else if LastName u \<noteq> '''' then LastName u
      else '''')"

definition GetDisplayName :: "User \<Rightarrow> string" where
  "GetDisplayName u = (if GetFullName u \<noteq> '''' then GetFullName u else Username u)"

definition digit :: "nat \<Rightarrow> char" where
  "digit n = ''0123456789'' ! (n mod 10)"

fun itoa :: "nat \<Rightarrow> string" where
  "itoa n = (if n < 10 then [digit n] else itoa (n div 10) @ [digit (n mod 10)])"

declare itoa.simps [simp del]

definition pad2 :: "nat \<Rightarrow> string" where
  "pad2 n = (if n < 10 then ''0'' @ itoa n else itoa n)"

text \<open>\<^verbatim>\<open>t.In(loc).Format("3:04pm")\<close>: hour on the 12-hour clock, minute, am or pm.\<close>

definition Format_clock :: "Location \<Rightarrow> instant \<Rightarrow> string" where
  "Format_clock loc t =
     (let sec = (t + offset_at loc t) mod 86400;
          hour = sec div 3600;
          minute = (sec mod 3600) div 60;
          hr = (if hour mod 12 = 0 then 12 else hour mod 12)
      in itoa (nat hr) @ '':'' @ pad2 (nat minute) @ (if hour \<ge> 12 then ''pm'' else ''am''))"

text \<open>
  \<^verbatim>\<open>t.In(loc).Format("(MST)")\<close>: the zone abbreviation in brackets, or the
  offset as sign, hours and minutes when the zone has no abbreviation.
\<close>

definition Format_zone :: "Location \<Rightarrow> instant \<Rightarrow> string" where
  "Format_zone loc t =
     (let name = abbrev_at loc t;
          offset = offset_at loc t;
          zone = \<bar>offset\<bar> div 60
      in ''('' @
         (if name \<noteq> '''' then name
          else (if offset \<le> - 60 then ''-'' else ''+'')
                 @ pad2 (nat (zone div 60)) @ pad2 (nat (zone mod 60)))
         @ '')'')"

definition newline :: string where
  "newline = [CHR 0x0A]"

fun verboseDisplay_loop :: "env \<Rightarrow> instant \<Rightarrow> instant \<Rightarrow> string \<Rightarrow> User list \<Rightarrow> string" where
  "verboseDisplay_loop env start end message [] = message"
| "verboseDisplay_loop env start end message (user # users) =
     (case location env user of
        None \<Rightarrow>
          verboseDisplay_loop env start end
            (message @ newline @ ''- '' @ FirstName user @ '' '' @ LastName user @ '': ?'') users
      | Some loc \<Rightarrow>
          verboseDisplay_loop env start end
            (message @ newline @ ''- '' @ GetDisplayName user @ '': '' @ Format_clock loc start
               @ '' - '' @ Format_clock loc end @ '' '' @ Format_zone loc end) users)"

definition verboseDisplay :: "env \<Rightarrow> instant \<Rightarrow> instant \<Rightarrow> User list \<Rightarrow> string" where
  "verboseDisplay env start end users = verboseDisplay_loop env start end '''' users"

text \<open>
  The Go map from zone name to members is kept as an association list in the order in
  which the keys first occur; Go leaves the order in which \<^verbatim>\<open>compactDisplay\<close> ranges over
  the map open, and this is one of the orders it may take.
\<close>

fun usersByTimezone_loop :: "env \<Rightarrow> (string \<times> User list) list \<Rightarrow> User list \<Rightarrow> (string \<times> User list) list" where
  "usersByTimezone_loop env umap [] = umap"
| "usersByTimezone_loop env umap (user # users) =
     (let locStr = String_loc (location env user)
      in if locStr = '''' then usersByTimezone_loop env umap users
         else usersByTimezone_loop env
                (AList.update locStr
                   ((case map_of umap locStr of None \<Rightarrow> [] | Some us \<Rightarrow> us) @ [user]) umap)
                users)"

definition usersByTimezone :: "env \<Rightarrow> User list \<Rightarrow> (string \<times> User list) list" where
  "usersByTimezone env users = usersByTimezone_loop env [] users"

definition othersMsg :: "nat \<Rightarrow> string" where
  "othersMsg userCount =
     (if userCount > 1
      then (if userCount = 2 then '' and 1 other'' else '' and '' @ itoa (userCount - 1) @ '' others'')
      else '''')"

text \<open>\<^verbatim>\<open>Time.In\<close> panics on a nil location, and \<^verbatim>\<open>users[0]\<close> on an empty group.\<close>

fun compactDisplay_loop :: "env \<Rightarrow> instant \<Rightarrow> instant \<Rightarrow> string \<Rightarrow> (string \<times> User list) list \<Rightarrow> error + string" where
  "compactDisplay_loop env start end message [] = Inr message"
| "compactDisplay_loop env start end message ((locStr, users) # usersMap) =
     (case users of
        [] \<Rightarrow> Inl (Panic ''index out of range'')
      | user0 # _ \<Rightarrow>
          (case location env user0 of
             None \<Rightarrow> Inl (Panic ''time: missing Location in call to Time.In'')
           | Some loc \<Rightarrow>
               compactDisplay_loop env start end
                 (message @ newline @ ''- '' @ GetDisplayName user0 @ othersMsg (length users)
                    @ '': '' @ Format_clock loc start @ '' - '' @ Format_clock loc end
                    @ '' '' @ Format_zone loc end)
                 usersMap))"

definition compactDisplay :: "env \<Rightarrow> instant \<Rightarrow> instant \<Rightarrow> User list \<Rightarrow> error + string" where
  "compactDisplay env start end users =
     compactDisplay_loop env start end '''' (usersByTimezone env users)"

section \<open>Fetching the members and answering the command\<close>

definition batchSize :: nat where
  "batchSize = 100"

definition maxDisplayUserBullets :: nat where
  "maxDisplayUserBullets = 50"

text \<open>
  The loop of \<^verbatim>\<open>allUsers\<close>. It has no bound of its own (a server that keeps returning
  full pages keeps it going), so not returning is the value \<open>None\<close>. The result is
  the member list, the error, and the number of calls of \<^verbatim>\<open>GetUsersInChannel\<close>
  that were made.
\<close>

definition nonBots :: "User list \<Rightarrow> User list" where
  "nonBots usersBatch = filter (\<lambda>user. \<not> IsBot user) usersBatch"

partial_function (option) allUsers_loop ::
  "env \<Rightarrow> string \<Rightarrow> int \<Rightarrow> nat \<Rightarrow> User list \<Rightarrow> (User list \<times> error option \<times> nat) option" where
  "allUsers_loop env channelID limit page allUsers =
     (case GetUsersInChannel env channelID page batchSize of
        Inl err \<Rightarrow> Some ([], Some (ApiError err), Suc page)
      | Inr usersBatch \<Rightarrow>
          if int (length (allUsers @ nonBots usersBatch)) > limit
          then Some (allUsers @ nonBots usersBatch, Some errMaxChannelMembers, Suc page)
          else if length usersBatch < batchSize
          then Some (allUsers @ nonBots usersBatch, None, Suc page)
          else allUsers_loop env channelID limit (Suc page) (allUsers @ nonBots usersBatch))"

declare allUsers_loop.simps [code]

definition allUsers :: "env \<Rightarrow> string \<Rightarrow> int \<Rightarrow> (User list \<times> error option \<times> nat) option" where
  "allUsers env channelID limit = allUsers_loop env channelID limit 0 []"

text \<open>The members that are not bots on the first \<open>n\<close> pages \<open>batch 0\<close>, \<open>batch 1\<close>, ...\<close>

definition gathered :: "(nat \<Rightarrow> User list) \<Rightarrow> nat \<Rightarrow> nat \<Rightarrow> User list" where
  "gathered batch page n = concat (map (\<lambda>j. nonBots (batch j)) [page..<page + n])"

text \<open>\<^verbatim>\<open>strings.Fields\<close> on ASCII white space.\<close>

definition isSpace :: "char \<Rightarrow> bool" where
  "isSpace c = (c \<in> set [CHR '' '', CHR 0x09, CHR 0x0A, CHR 0x0B, CHR 0x0C, CHR 0x0D])"

fun Fields_loop :: "string \<Rightarrow> string \<Rightarrow> string list" where
  "Fields_loop field [] = (if field = [] then [] else [field])"
| "Fields_loop field (c # cs) =
     (if isSpace c then (if field = [] then Fields_loop [] cs else field # Fields_loop [] cs)
      else Fields_loop (field @ [c]) cs)"

definition Fields :: "string \<Rightarrow> string list" where
  "Fields str = Fields_loop [] str"

record CommandArgs =
  Command :: string
  ChannelId :: string
  UserId :: string

record Post =
  post_UserId :: string
  post_ChannelId :: string
  Message :: string

text \<open>
  The plugin's state as far as the command reads it: the bot's identifier and the
  \<^verbatim>\<open>MaxChannelMembers\<close> field of its configuration.
\<close>

record Plugin =
  BotUserID :: string
  MaxChannelMembers :: int

text \<open>
  \<^verbatim>\<open>SendEphemeralPost(args.UserId, post)\<close> is recorded as the pair of the recipient
  and the post; a run of the command that returns a \<^verbatim>\<open>CommandResponse\<close> is the
  list of the posts it sent.
\<close>

definition reply :: "Plugin \<Rightarrow> CommandArgs \<Rightarrow> string \<Rightarrow> (string \<times> Post) list" where
  "reply p args message =
     [(UserId args, \<lparr>post_UserId = BotUserID p, post_ChannelId = ChannelId args, Message = message\<rparr>)]"

definition header :: string where
  "header = ''It looks like the best times to chat are:'' @ newline"

definition display :: "env \<Rightarrow> instant \<Rightarrow> instant \<Rightarrow> User list \<Rightarrow> error + string" where
  "display env start end users =
     (if length users \<le> maxDisplayUserBullets
      then Inr (verboseDisplay env start end users)
      else compactDisplay env start end users)"

text \<open>\<^verbatim>\<open>ExecuteCommand\<close> from the point where \<^verbatim>\<open>allUsers\<close> has returned.\<close>

definition respond :: "env \<Rightarrow> Plugin \<Rightarrow> CommandArgs \<Rightarrow> User list \<Rightarrow> error option \<Rightarrow> error + (string \<times> Post) list" where
  "respond env p args users err =
     (case err of
        Some e \<Rightarrow>
          if e \<noteq> errMaxChannelMembers then Inl (AppError (Error_msg e))
          else Inr (reply p args ''Too many channel members.'')
      | None \<Rightarrow>
          (case window env users of
             (earliestStart, latestEnd, ok) \<Rightarrow>
               if \<not> ok then Inr (reply p args ''There is no window that suits everyone.'')
               else (case arrangeUserFirst (UserId args) users of
                       Inl e \<Rightarrow> Inl e
                     | Inr arranged \<Rightarrow>
                         (case display env earliestStart latestEnd arranged of
                            Inl e \<Rightarrow> Inl e
                          | Inr message \<Rightarrow> Inr (reply p args (header @ message))))))"

definition ExecuteCommand :: "env \<Rightarrow> Plugin \<Rightarrow> CommandArgs \<Rightarrow> ((error + (string \<times> Post) list) \<times> nat) option" where
  "ExecuteCommand env p args =
     (case Fields (Command args) of
        [] \<Rightarrow> Some (Inl (Panic ''index out of range''), 0)
      | command # _ \<Rightarrow>
          if command \<noteq> ''/whentochat'' then Some (Inr [], 0)
          else (case allUsers env (ChannelId args) (MaxChannelMembers p) of
                  None \<Rightarrow> None
                | Some (users, err, calls) \<Rightarrow> Some (respond env p args users err, calls)))"

section \<open>The daily window in the specification's words\<close>

text \<open>
  For comparison with the code, a member's daily window as the specification words it:
  the calendar date of an instant in the member's own zone, and the half-open interval
  from 07:00 to 22:00 of a date in that zone.
\<close>

definition own_day :: "Location \<Rightarrow> instant \<Rightarrow> int" where
  "own_day loc now = (now + offset_at loc now) div 86400"

definition in_DailyWindow :: "Location \<Rightarrow> int \<Rightarrow> instant \<Rightarrow> bool" where
  "in_DailyWindow loc day t = (time_Date day 7 loc \<le> t \<and> t < time_Date day 22 loc)"

section \<open>Sample data\<close>

text \<open>
  Two zones without transitions, nine hours ahead of UTC and six hours behind it, and a
  database that knows these two only.
\<close>

definition Tokyo :: Location where
  "Tokyo = \<lparr>loc_name = ''Asia/Tokyo'', offset_at = (\<lambda>_. 32400), abbrev_at = (\<lambda>_. ''JST''),
             date_offset = (\<lambda>_. 32400)\<rparr>"

definition Regina :: Location where
  "Regina = \<lparr>loc_name = ''America/Regina'', offset_at = (\<lambda>_. - 21600), abbrev_at = (\<lambda>_. ''CST''),
              date_offset = (\<lambda>_. - 21600)\<rparr>"

definition sample_tzdata :: "string \<Rightarrow> Location option" where
  "sample_tzdata name =
     (if name = ''Asia/Tokyo'' then Some Tokyo
      else if name = ''America/Regina'' then Some Regina
      else None)"

text \<open>
  A member with a manual zone name and neither first nor last name, listed by user
  name; a bot account.
\<close>

definition member :: "string \<Rightarrow> string \<Rightarrow> User" where
  "member uid tz =
     \<lparr>Id_user = uid, Username = uid, FirstName = '''', LastName = '''', IsBot = False,
      Timezone = [''useAutomaticTimezone'' \<mapsto> ''false'', ''automaticTimezone'' \<mapsto> '''',
                  ''manualTimezone'' \<mapsto> tz]\<rparr>"

definition robot :: User where
  "robot = (member ''robot'' ''UTC'')\<lparr>IsBot := True\<rparr>"

text \<open>
  A server in UTC whose clock shows 20:00 on day 739000 at every reading and whose
  channel holds the given accounts, handed out page by page.
\<close>

definition server :: "User list \<Rightarrow> env" where
  "server members =
     \<lparr>tzdata = sample_tzdata, Local = UTC, Now = (\<lambda>_. 63849672000),
      GetUsersInChannel = (\<lambda>channelID page perPage. Inr (take perPage (drop (page * perPage) members)))\<rparr>"

text \<open>
  Three members, the last with a zone name the database does not know; and a channel of
  51 members, fifty in UTC and one with such a name.
\<close>

definition trio :: "User list" where
  "trio = [member ''ann'' ''UTC'', member ''bob'' ''Asia/Tokyo'', member ''cy'' ''Mars/Olympus'']"

definition crowd :: "User list" where
  "crowd = map (\<lambda>n. member (''user'' @ itoa n) ''UTC'') [0..<50] @ [member ''zed'' ''Mars/Olympus'']"

text \<open>
  The command as a given user invokes it in the channel \<^verbatim>\<open>town\<close>, and the plugin
  with a given cap on the member count.
\<close>

definition ask :: "string \<Rightarrow> CommandArgs" where
  "ask uid = \<lparr>Command = ''/whentochat'', ChannelId = ''town'', UserId = uid\<rparr>"

definition plugin_with_cap :: "int \<Rightarrow> Plugin" where
  "plugin_with_cap cap = \<lparr>BotUserID = ''whentochat'', MaxChannelMembers = cap\<rparr>"

section \<open>Results: Evaluating the sample data\<close>

lemmas sample_defs =
  location_def LoadLocation_def chosen_tz_def useAutomatic_def ParseBool_def index_map_def
  member_def server_def sample_tzdata_def Tokyo_def Regina_def UTC_def
  window_def window_step_def time_Date_def local_day_def

lemma Fields_ask: "Fields (Command (ask uid)) = ''/whentochat'' # []"
  by (simp add: ask_def Fields_def isSpace_def)

lemma nonBots_crowd: "nonBots crowd = crowd"
  by (simp add: crowd_def nonBots_def member_def filter_map comp_def)

lemma length_crowd: "length crowd = 51"
  by (simp add: crowd_def)

lemma nonBots_robots: "nonBots (replicate 100 robot) = []"
  by (simp add: nonBots_def robot_def)

lemma nonBots_trio: "nonBots trio = trio"
  by (simp add: nonBots_def trio_def member_def)

lemma allUsers_trio: "allUsers (server trio) (ChannelId (ask uid)) (MaxChannelMembers (plugin_with_cap 200)) = Some (trio, None, 1)"
  unfolding allUsers_def
  by (subst allUsers_loop.simps)
     (simp add: server_def batchSize_def plugin_with_cap_def nonBots_def trio_def member_def)

lemma allUsers_crowd: "allUsers (server crowd) (ChannelId (ask uid)) (MaxChannelMembers (plugin_with_cap 200)) = Some (crowd, None, 1)"
  unfolding allUsers_def
  by (subst allUsers_loop.simps)
     (simp add: server_def batchSize_def plugin_with_cap_def nonBots_crowd length_crowd)

lemma window_trio: "window (server trio) trio = (63849625200, 63849646800, True)"
  by (simp add: sample_defs trio_def)

lemma window_crowd: "window (server crowd) crowd = (63849625200, 63849679200, True)"
  by code_simp

section \<open>Results: The shared window\<close>

lemma window_empty_list: "window env [] = (0, 0, True)"
  by (simp add: window_def)

lemma window_step_mono:
  "0 < i \<Longrightarrow> window_step env i loc (s, e) = (s', e') \<Longrightarrow> s \<le> s' \<and> e' \<le> e"
  by (auto simp: window_step_def Let_def split: if_splits)

lemma window_step_bounds:
  "window_step env i loc se = (s', e') \<Longrightarrow>
     time_Date (local_day env (Now env i)) 7 loc \<le> s' \<and>
     e' \<le> time_Date (local_day env (Now env i)) 22 loc"
  by (cases se) (auto simp: window_step_def Let_def split: if_splits)

lemma window_loop_strict:
  "window_loop env i users (s, e) = (s', e', True) \<Longrightarrow>
     s < e \<or> (\<exists>u \<in> set users. location env u \<noteq> None) \<Longrightarrow> s' < e'"
proof (induction users arbitrary: i s e)
  case Nil
  then show ?case by simp
next
  case (Cons u us)
  show ?case
  proof (cases "location env u")
    case None
    with Cons.prems have "window_loop env (Suc i) us (s, e) = (s', e', True)"
      and "s < e \<or> (\<exists>u \<in> set us. location env u \<noteq> None)" by auto
    then show ?thesis by (rule Cons.IH)
  next
    case (Some loc0)
    obtain s1 e1 where st: "window_step env i loc0 (s, e) = (s1, e1)" by fastforce
    with Some Cons.prems have "s1 < e1" and "window_loop env (Suc i) us (s1, e1) = (s', e', True)"
      by (auto split: if_splits)
    then show ?thesis using Cons.IH by blast
  qed
qed

lemma window_loop_ok:
  "0 < i \<Longrightarrow> window_loop env i users (s, e) = (s', e', True) \<Longrightarrow>
     s \<le> s' \<and> e' \<le> e \<and>
     (\<forall>k < length users. \<forall>loc. location env (users ! k) = Some loc \<longrightarrow>
        time_Date (local_day env (Now env (i + k))) 7 loc \<le> s' \<and> s' < e' \<and>
        e' \<le> time_Date (local_day env (Now env (i + k))) 22 loc)"
proof (induction users arbitrary: i s e)
  case Nil
  then show ?case by simp
next
  case (Cons u us)
  show ?case
  proof (cases "location env u")
    case None
    with Cons.prems have run: "window_loop env (Suc i) us (s, e) = (s', e', True)" by simp
    from Cons.IH [OF _ run] have ih: "s \<le> s'" "e' \<le> e"
      "\<forall>k < length us. \<forall>loc. location env (us ! k) = Some loc \<longrightarrow>
        time_Date (local_day env (Now env (Suc i + k))) 7 loc \<le> s' \<and> s' < e' \<and>
        e' \<le> time_Date (local_day env (Now env (Suc i + k))) 22 loc" by simp_all
    have "\<forall>k < length (u # us). \<forall>loc. location env ((u # us) ! k) = Some loc \<longrightarrow>
        time_Date (local_day env (Now env (i + k))) 7 loc \<le> s' \<and> s' < e' \<and>
        e' \<le> time_Date (local_day env (Now env (i + k))) 22 loc"
    proof (intro allI impI)
      fix k loc assume k: "k < length (u # us)" and l: "location env ((u # us) ! k) = Some loc"
      show "time_Date (local_day env (Now env (i + k))) 7 loc \<le> s' \<and> s' < e' \<and>
        e' \<le> time_Date (local_day env (Now env (i + k))) 22 loc"
      proof (cases k)
        case 0
        with l None show ?thesis by simp
      next
        case (Suc m)
        with k l ih(3) show ?thesis by simp
      qed
    qed
    with ih show ?thesis by simp
  next
    case (Some loc0)
    obtain s1 e1 where st: "window_step env i loc0 (s, e) = (s1, e1)" by fastforce
    with Some Cons.prems have lt: "s1 < e1" and run: "window_loop env (Suc i) us (s1, e1) = (s', e', True)"
      by (auto split: if_splits)
    from Cons.IH [OF _ run] have ih: "s1 \<le> s'" "e' \<le> e1"
      "\<forall>k < length us. \<forall>loc. location env (us ! k) = Some loc \<longrightarrow>
        time_Date (local_day env (Now env (Suc i + k))) 7 loc \<le> s' \<and> s' < e' \<and>
        e' \<le> time_Date (local_day env (Now env (Suc i + k))) 22 loc" by simp_all
    from window_step_mono [OF Cons.prems(1) st] have mono: "s \<le> s1" "e1 \<le> e" by simp_all
    from window_step_bounds [OF st] have b: "time_Date (local_day env (Now env i)) 7 loc0 \<le> s1"
       "e1 \<le> time_Date (local_day env (Now env i)) 22 loc0" by simp_all
    have "\<forall>k < length (u # us). \<forall>loc. location env ((u # us) ! k) = Some loc \<longrightarrow>
        time_Date (local_day env (Now env (i + k))) 7 loc \<le> s' \<and> s' < e' \<and>
        e' \<le> time_Date (local_day env (Now env (i + k))) 22 loc"
    proof (intro allI impI)
      fix k loc assume k: "k < length (u # us)" and l: "location env ((u # us) ! k) = Some loc"
      show "time_Date (local_day env (Now env (i + k))) 7 loc \<le> s' \<and> s' < e' \<and>
        e' \<le> time_Date (local_day env (Now env (i + k))) 22 loc"
      proof (cases k)
        case 0
        with l Some have "loc = loc0" by simp
        moreover from Cons.prems(2) Some have "s' < e'"
          by (intro window_loop_strict [OF Cons.prems(2)]) simp
        ultimately show ?thesis using 0 b ih by simp
      next
        case (Suc m)
        with k l ih(3) show ?thesis by simp
      qed
    qed
    with ih mono show ?thesis by simp
  qed
qed

lemma window_loop_unresolved:
  "\<forall>u \<in> set users. location env u = None \<Longrightarrow> window_loop env i users (s, e) = (s, e, True)"
  by (induction users arbitrary: i) auto

lemma window_first_unresolved:
  assumes "location env u = None" and "\<exists>v \<in> set us. location env v \<noteq> None"
  shows "\<not> snd (snd (window env (u # us)))"
proof
  assume ok: "snd (snd (window env (u # us)))"
  obtain s' e' where r: "window_loop env (Suc 0) us (0, 0) = (s', e', True)"
    using ok assms(1) by (cases "window_loop env (Suc 0) us (0, 0)") (auto simp: window_def)
  from window_loop_ok [OF _ r] have "0 \<le> s'" "e' \<le> 0" by simp_all
  moreover from window_loop_strict [OF r] assms(2) have "s' < e'" by blast
  ultimately show False by simp
qed

lemma window_loop_strict_iff:
  "snd (snd (window_loop env i users se)) \<longleftrightarrow>
     (\<forall>k < length users. location env (users ! k) \<noteq> None \<longrightarrow>
        fst (running env i (take (Suc k) users) se) < snd (running env i (take (Suc k) users) se))"
proof (induction users arbitrary: i se)
  case Nil
  then show ?case by (cases se) simp
next
  case (Cons u us)
  obtain s e where se: "se = (s, e)" by (cases se)
  show ?case
  proof (cases "location env u")
    case None
    have "(\<forall>k < length (u # us). location env ((u # us) ! k) \<noteq> None \<longrightarrow>
        fst (running env i (take (Suc k) (u # us)) se) < snd (running env i (take (Suc k) (u # us)) se))
      \<longleftrightarrow> (\<forall>k < length us. location env (us ! k) \<noteq> None \<longrightarrow>
        fst (running env (Suc i) (take (Suc k) us) se) < snd (running env (Suc i) (take (Suc k) us) se))"
      using None by (simp add: All_less_Suc2)
    with None Cons.IH [of "Suc i" se] se show ?thesis by simp
  next
    case (Some loc0)
    obtain s1 e1 where st: "window_step env i loc0 se = (s1, e1)" by fastforce
    have "(\<forall>k < length (u # us). location env ((u # us) ! k) \<noteq> None \<longrightarrow>
        fst (running env i (take (Suc k) (u # us)) se) < snd (running env i (take (Suc k) (u # us)) se))
      \<longleftrightarrow> s1 < e1 \<and> (\<forall>k < length us. location env (us ! k) \<noteq> None \<longrightarrow>
        fst (running env (Suc i) (take (Suc k) us) (s1, e1)) < snd (running env (Suc i) (take (Suc k) us) (s1, e1)))"
      using Some st by (simp add: All_less_Suc2)
    with Some st Cons.IH [of "Suc i" "(s1, e1)"] se show ?thesis by auto
  qed
qed

text \<open>
  Claim C1 as it is worded fails. With the server in UTC at 20:00, a member in Tokyo is
  already on the next calendar day, yet the window returned starts at 07:00 of the
  server's day in that member's zone, which is outside the member's daily window of the
  member's own current date. And for a single member in the server's zone the returned end is 22:00 itself,
  which the half-open interval from 07:00 to 22:00 leaves out.
\<close>

theorem window_member_date_counterexample:
  "snd (snd (window (server []) [member ''ann'' ''Asia/Tokyo''])) \<and>
   location (server []) (member ''ann'' ''Asia/Tokyo'') = Some Tokyo \<and>
   \<not> in_DailyWindow Tokyo (own_day Tokyo (Now (server []) 0))
        (fst (window (server []) [member ''ann'' ''Asia/Tokyo''])) \<and>
   snd (snd (window (server []) [member ''bob'' ''UTC''])) \<and>
   location (server []) (member ''bob'' ''UTC'') = Some UTC \<and>
   own_day UTC (Now (server []) 0) = local_day (server []) (Now (server []) 0) \<and>
   \<not> in_DailyWindow UTC (own_day UTC (Now (server []) 0))
        (fst (snd (window (server []) [member ''bob'' ''UTC''])))"
  by (simp add: sample_defs in_DailyWindow_def own_day_def)

text \<open>
  Claim C1, amended. Whenever \<^verbatim>\<open>window\<close> reports an overlap, then for every member
  whose zone resolves, the returned start and end lie between that member's 07:00 and
  22:00: 07:00 is at or before start, start is before end, and end is at or before 22:00.
  Here 07:00 and 22:00 are taken in the member's zone on the calendar date that the
  server's clock shows in the server's zone when the loop reaches that member. For a
  zone without transitions this says that the clock readings of start and end in the
  member's zone are between 07:00 and 22:00 of that date.
\<close>

theorem window_within_members:
  assumes "window env users = (start, end, True)"
    and "k < length users"
    and "location env (users ! k) = Some loc"
  shows "time_Date (local_day env (Now env k)) 7 loc \<le> start \<and> start < end \<and>
         end \<le> time_Date (local_day env (Now env k)) 22 loc \<and>
         (offset_at loc = (\<lambda>_. off) \<and> date_offset loc = (\<lambda>_. off) \<longrightarrow>
            local_day env (Now env k) * 86400 + 7 * 3600 \<le> start + offset_at loc start \<and>
            end + offset_at loc end \<le> local_day env (Now env k) * 86400 + 22 * 3600)"
proof -
  have bounds: "time_Date (local_day env (Now env k)) 7 loc \<le> start \<and> start < end \<and>
         end \<le> time_Date (local_day env (Now env k)) 22 loc"
  proof (cases users)
    case Nil
    with assms(2) show ?thesis by simp
  next
    case (Cons u us)
    show ?thesis
    proof (cases "location env u")
      case None
      from assms(2,3) have "\<exists>v \<in> set users. location env v \<noteq> None"
        by (metis nth_mem option.distinct(1))
      with None Cons have "\<exists>v \<in> set us. location env v \<noteq> None" by auto
      from window_first_unresolved [OF None this] assms(1) Cons show ?thesis by simp
    next
      case (Some loc0)
      let ?s0 = "time_Date (local_day env (Now env 0)) 7 loc0"
      let ?e0 = "time_Date (local_day env (Now env 0)) 22 loc0"
      have st: "window_step env 0 loc0 (0, 0) = (?s0, ?e0)"
        by (simp add: window_step_def Let_def)
      with Some Cons assms(1) have run: "window_loop env (Suc 0) us (?s0, ?e0) = (start, end, True)"
        by (auto simp: window_def split: if_splits)
      from window_loop_ok [OF _ run] have mono: "?s0 \<le> start" "end \<le> ?e0"
        and rest: "\<forall>m < length us. \<forall>loc. location env (us ! m) = Some loc \<longrightarrow>
          time_Date (local_day env (Now env (Suc 0 + m))) 7 loc \<le> start \<and> start < end \<and>
          end \<le> time_Date (local_day env (Now env (Suc 0 + m))) 22 loc" by simp_all
      from assms(1) Cons Some have strict: "start < end"
        by (intro window_loop_strict [of env 0 users 0 0 start "end"]) (simp_all add: window_def)
      show ?thesis
      proof (cases k)
        case 0
        with assms(3) Cons Some have "loc = loc0" by simp
        with 0 mono strict show ?thesis by simp
      next
        case (Suc m)
        with assms(2,3) Cons rest show ?thesis by simp
      qed
    qed
  qed
  then show ?thesis by (auto simp: time_Date_def Let_def)
qed

text \<open>
  Claim C1, amended, at three members of whom the second is in Tokyo.
\<close>

theorem window_within_members_witness:
  "window (server []) trio = (63849625200, 63849646800, True) \<and>
   1 < length trio \<and> location (server []) (trio ! 1) = Some Tokyo \<and>
   offset_at Tokyo = (\<lambda>_. 32400) \<and> date_offset Tokyo = (\<lambda>_. 32400) \<and>
   time_Date (local_day (server []) (Now (server []) 1)) 7 Tokyo \<le> 63849625200 \<and>
   (63849625200 :: int) < 63849646800 \<and>
   63849646800 \<le> time_Date (local_day (server []) (Now (server []) 1)) 22 Tokyo \<and>
   local_day (server []) (Now (server []) 1) * 86400 + 7 * 3600 \<le> 63849625200 + offset_at Tokyo 63849625200 \<and>
   63849646800 + offset_at Tokyo 63849646800 \<le> local_day (server []) (Now (server []) 1) * 86400 + 22 * 3600"
proof -
  have w: "window (server []) trio = (63849625200, 63849646800, True)"
    and k: "1 < length trio"
    and l: "location (server []) (trio ! 1) = Some Tokyo"
    by (simp_all add: sample_defs trio_def)
  have o: "offset_at Tokyo = (\<lambda>_. 32400)" "date_offset Tokyo = (\<lambda>_. 32400)"
    by (simp_all add: Tokyo_def)
  from window_within_members [OF w k l, of 32400] w k l o show ?thesis by blast
qed

text \<open>
  Claim C2 against the code. The bounds are set when the loop index is 0, and a member
  without a zone is skipped before that. With an unknown member first and a member in
  UTC second, start becomes the second member's 07:00 while end stays the zero instant, and
  no overlap is reported; the member in UTC alone, or followed by the unknown member, gets
  the window from 07:00 to 22:00.
\<close>

theorem window_first_member_unresolved_example:
  "window (server []) [member ''cy'' ''Mars/Olympus'', member ''ann'' ''UTC''] = (63849625200, 0, False) \<and>
   window (server []) [member ''ann'' ''UTC''] = (63849625200, 63849679200, True) \<and>
   window (server []) [member ''ann'' ''UTC'', member ''cy'' ''Mars/Olympus''] = (63849625200, 63849679200, True)"
  by (simp add: sample_defs)

text \<open>
  Claim C3 as it is worded fails: for the empty list, and for a list whose only member has
  an unknown zone, \<^verbatim>\<open>window\<close> reports an overlap.
\<close>

theorem window_no_resolved_counterexample:
  "snd (snd (window (server []) [])) \<and>
   location (server []) (member ''cy'' ''Mars/Olympus'') = None \<and>
   snd (snd (window (server []) [member ''cy'' ''Mars/Olympus'']))"
  by (simp add: sample_defs)

text \<open>
  Claim C3, amended. For every member list in which no member has a resolvable zone, the
  empty list among them, \<^verbatim>\<open>window\<close> returns with the overlap flag true and with start
  and end both left at the zero instant.
\<close>

theorem window_no_resolved_member:
  "\<forall>u \<in> set users. location env u = None \<Longrightarrow> window env users = (0, 0, True)"
  by (simp add: window_def window_loop_unresolved)

text \<open>
  Claim C3, amended, at two members with unknown zones.
\<close>

theorem window_no_resolved_member_witness:
  "location (server []) (member ''cy'' ''Mars/Olympus'') = None \<and>
   location (server []) (member ''dee'' ''Nowhere'') = None \<and>
   window (server []) [member ''cy'' ''Mars/Olympus'', member ''dee'' ''Nowhere''] = (0, 0, True)"
proof -
  have c: "location (server []) (member ''cy'' ''Mars/Olympus'') = None"
    and d: "location (server []) (member ''dee'' ''Nowhere'') = None"
    by (simp_all add: sample_defs)
  then have h: "\<forall>u \<in> set [member ''cy'' ''Mars/Olympus'', member ''dee'' ''Nowhere''].
      location (server []) u = None"
    by simp
  from window_no_resolved_member [OF h] c d show ?thesis by blast
qed

text \<open>
  Claim C4. \<^verbatim>\<open>window\<close> reports an overlap exactly when, after every member whose zone
  resolves, the running start is strictly before the running end. So as soon as the
  running start equals or follows the running end, after any such member, the answer is
  that there is no overlap, and equality counts as none.
\<close>

theorem window_requires_strict_inequality:
  "snd (snd (window env users)) \<longleftrightarrow>
     (\<forall>k < length users. location env (users ! k) \<noteq> None \<longrightarrow>
        fst (running env 0 (take (Suc k) users) (0, 0)) < snd (running env 0 (take (Suc k) users) (0, 0)))"
  unfolding window_def by (rule window_loop_strict_iff)

text \<open>
  Claim C4 at a member in Tokyo and one in Regina: 22:00 of the first is 07:00 of the
  second, the running start and end meet after the second member, and no overlap is
  reported.
\<close>

theorem window_requires_strict_inequality_witness:
  "running (server []) 0 (take (Suc 1) [member ''bob'' ''Asia/Tokyo'', member ''eve'' ''America/Regina'']) (0, 0)
     = (63849646800, 63849646800) \<and>
   location (server []) ([member ''bob'' ''Asia/Tokyo'', member ''eve'' ''America/Regina''] ! 1) \<noteq> None \<and>
   \<not> snd (snd (window (server []) [member ''bob'' ''Asia/Tokyo'', member ''eve'' ''America/Regina'']))"
proof -
  let ?us = "[member ''bob'' ''Asia/Tokyo'', member ''eve'' ''America/Regina'']"
  have r: "running (server []) 0 (take (Suc 1) ?us) (0, 0) = (63849646800, 63849646800)"
    and l: "location (server []) (?us ! 1) \<noteq> None"
    by (simp_all add: sample_defs)
  have "\<not> (\<forall>k < length ?us. location (server []) (?us ! k) \<noteq> None \<longrightarrow>
        fst (running (server []) 0 (take (Suc k) ?us) (0, 0))
          < snd (running (server []) 0 (take (Suc k) ?us) (0, 0)))"
  proof
    assume a: "\<forall>k < length ?us. location (server []) (?us ! k) \<noteq> None \<longrightarrow>
        fst (running (server []) 0 (take (Suc k) ?us) (0, 0))
          < snd (running (server []) 0 (take (Suc k) ?us) (0, 0))"
    have "1 < length ?us" by simp
    from a [rule_format, OF this l]
    have "fst (running (server []) 0 (take (Suc 1) ?us) (0, 0))
          < snd (running (server []) 0 (take (Suc 1) ?us) (0, 0))" .
    with r show False by simp
  qed
  with window_requires_strict_inequality [of "server []" ?us]
  have "\<not> snd (snd (window (server []) ?us))" by blast
  with r l show ?thesis by blast
qed

section \<open>Results: Moving the invoker to the front\<close>

lemma indexOfUser_absent:
  "userID \<notin> Id_user ` set users \<Longrightarrow> indexOfUser userID i users = 0"
  by (induction users arbitrary: i) auto

lemma indexOfUser_present:
  "userID \<in> Id_user ` set users \<Longrightarrow>
     i \<le> indexOfUser userID i users \<and> indexOfUser userID i users - i < length users \<and>
     Id_user (users ! (indexOfUser userID i users - i)) = userID \<and>
     (\<forall>j < indexOfUser userID i users - i. Id_user (users ! j) \<noteq> userID)"
proof (induction users arbitrary: i)
  case Nil
  then show ?case by simp
next
  case (Cons u us)
  show ?case
  proof (cases "Id_user u = userID")
    case True
    then show ?thesis by simp
  next
    case False
    with Cons.prems have mem: "userID \<in> Id_user ` set us" by auto
    note ih = Cons.IH [OF mem, of "Suc i"]
    let ?k = "indexOfUser userID (Suc i) us"
    from ih have le: "Suc i \<le> ?k" by simp
    then have eq: "?k - i = Suc (?k - Suc i)" by simp
    have "\<forall>j < ?k - i. Id_user ((u # us) ! j) \<noteq> userID"
    proof (intro allI impI)
      fix j assume "j < ?k - i"
      then show "Id_user ((u # us) ! j) \<noteq> userID"
        using False ih eq by (cases j) auto
    qed
    then show ?thesis using False ih le eq by simp
  qed
qed

lemma indexOfUser_bound: "users \<noteq> [] \<Longrightarrow> indexOfUser userID 0 users < length users"
proof (cases "userID \<in> Id_user ` set users")
  case True
  assume "users \<noteq> []"
  from indexOfUser_present [OF True, of 0] show ?thesis by simp
next
  case False
  assume "users \<noteq> []"
  then show ?thesis using indexOfUser_absent [OF False, of 0] by simp
qed

lemma remove1_first:
  "k < length xs \<Longrightarrow> \<forall>j < k. xs ! j \<noteq> xs ! k \<Longrightarrow> remove1 (xs ! k) xs = take k xs @ drop (Suc k) xs"
proof (induction xs arbitrary: k)
  case Nil
  then show ?case by simp
next
  case (Cons x xs)
  show ?case
  proof (cases k)
    case 0
    then show ?thesis by simp
  next
    case (Suc m)
    from Cons.prems Suc have ne: "x \<noteq> xs ! m" by auto
    from Cons.prems Suc have "\<forall>j < m. xs ! j \<noteq> xs ! m" by auto
    with Cons.IH [of m] Cons.prems Suc have "remove1 (xs ! m) xs = take m xs @ drop (Suc m) xs" by simp
    with ne Suc show ?thesis by simp
  qed
qed

text \<open>
  Claim C5. When the invoker's identifier occurs in the member list,
  \<^verbatim>\<open>arrangeUserFirst\<close> returns the invoker followed by the list without its first
  occurrence of the invoker: the same members, and the others in their old order.
\<close>

theorem arrangeUserFirst_invoker_first:
  assumes "userID \<in> Id_user ` set users"
  shows "\<exists>u rest. arrangeUserFirst userID users = Inr (u # rest) \<and>
           Id_user u = userID \<and>
           rest = remove1 u users \<and>
           mset (u # rest) = mset users \<and>
           filter (\<lambda>x. Id_user x \<noteq> userID) rest = filter (\<lambda>x. Id_user x \<noteq> userID) users"
proof -
  let ?k = "indexOfUser userID 0 users"
  from indexOfUser_present [OF assms, of 0]
  have k: "?k < length users" and idk: "Id_user (users ! ?k) = userID"
    and before: "\<forall>j < ?k. Id_user (users ! j) \<noteq> userID" by simp_all
  let ?u = "users ! ?k" and ?rest = "take ?k users @ drop (Suc ?k) users"
  have r: "arrangeUserFirst userID users = Inr (?u # ?rest)"
    using k by (simp add: arrangeUserFirst_def Let_def)
  from before idk have "\<forall>j < ?k. users ! j \<noteq> ?u" by auto
  with k have rm: "?rest = remove1 ?u users" by (simp add: remove1_first)
  have split: "users = take ?k users @ ?u # drop (Suc ?k) users"
    using k by (simp add: id_take_nth_drop)
  have ms: "mset (?u # ?rest) = mset users"
    by (subst (3) split) (simp del: append_take_drop_id)
  have fl: "filter (\<lambda>x. Id_user x \<noteq> userID) ?rest = filter (\<lambda>x. Id_user x \<noteq> userID) users"
    by (subst (3) split) (simp add: idk del: append_take_drop_id)
  from r idk rm ms fl show ?thesis by blast
qed

text \<open>
  Claim C5 at three members, invoked by the third.
\<close>

theorem arrangeUserFirst_invoker_first_witness:
  "''cy'' \<in> Id_user ` set trio \<and>
   (\<exists>u rest. arrangeUserFirst ''cy'' trio = Inr (u # rest) \<and>
           Id_user u = ''cy'' \<and>
           rest = remove1 u trio \<and>
           mset (u # rest) = mset trio \<and>
           filter (\<lambda>x. Id_user x \<noteq> ''cy'') rest = filter (\<lambda>x. Id_user x \<noteq> ''cy'') trio)"
proof -
  have h: "''cy'' \<in> Id_user ` set trio" by (simp add: trio_def member_def)
  from arrangeUserFirst_invoker_first [OF h] h show ?thesis by blast
qed

text \<open>
  Claim C10. On the empty list \<^verbatim>\<open>arrangeUserFirst\<close> reads out of range; on every other
  list, with or without the invoker in it, it returns a list of the same length, and when
  the invoker is not in the list the list comes back as it was.
\<close>

theorem arrangeUserFirst_total_on_nonempty:
  "arrangeUserFirst userID [] = Inl (Panic ''index out of range'') \<and>
   (users \<noteq> [] \<longrightarrow> (\<exists>r. arrangeUserFirst userID users = Inr r \<and> length r = length users)) \<and>
   (users \<noteq> [] \<and> userID \<notin> Id_user ` set users \<longrightarrow> arrangeUserFirst userID users = Inr users)"
proof (intro conjI impI)
  show "arrangeUserFirst userID [] = Inl (Panic ''index out of range'')"
    by (simp add: arrangeUserFirst_def)
next
  assume ne: "users \<noteq> []"
  from indexOfUser_bound [OF ne, of userID]
  show "\<exists>r. arrangeUserFirst userID users = Inr r \<and> length r = length users"
    by (auto simp: arrangeUserFirst_def Let_def)
next
  assume "users \<noteq> [] \<and> userID \<notin> Id_user ` set users"
  then have ne: "users \<noteq> []" and ab: "indexOfUser userID 0 users = 0"
    by (simp_all add: indexOfUser_absent)
  then show "arrangeUserFirst userID users = Inr users"
    by (cases users) (simp_all add: arrangeUserFirst_def)
qed

text \<open>
  Claim C10 at three members and an identifier none of them has.
\<close>

theorem arrangeUserFirst_total_on_nonempty_witness:
  "arrangeUserFirst ''nobody'' [] = Inl (Panic ''index out of range'') \<and>
   trio \<noteq> [] \<and> ''nobody'' \<notin> Id_user ` set trio \<and>
   (\<exists>r. arrangeUserFirst ''nobody'' trio = Inr r \<and> length r = length trio) \<and>
   arrangeUserFirst ''nobody'' trio = Inr trio"
proof -
  have h: "trio \<noteq> []" "''nobody'' \<notin> Id_user ` set trio" by (simp_all add: trio_def member_def)
  from arrangeUserFirst_total_on_nonempty [of "''nobody''" trio] h show ?thesis by blast
qed

section \<open>Results: Rendering\<close>

text \<open>
  Claim C6 against the code. The guard of \<^verbatim>\<open>usersByTimezone\<close> skips a member whose
  zone name is empty, but the name of a nil location is \<^verbatim>\<open>UTC\<close>, so a member with an
  unknown zone is filed under UTC. In a channel of fifty members in UTC and one with an
  unknown zone, invoked by a member in UTC, the one line of the compact listing counts
  fifty others instead of forty-nine; invoked by the member with the unknown zone, that
  member heads the group and the rendering panics.
\<close>

theorem compact_unknown_member_example:
  "location (server crowd) (member ''zed'' ''Mars/Olympus'') = None \<and>
   map fst (usersByTimezone (server crowd) crowd) = [''UTC''] \<and>
   map (length \<circ> snd) (usersByTimezone (server crowd) crowd) = [51] \<and>
   ExecuteCommand (server crowd) (plugin_with_cap 200) (ask ''user0'') =
     Some (Inr (reply (plugin_with_cap 200) (ask ''user0'')
       (header @ newline @ ''- user0 and 50 others: 7:00am - 10:00pm (UTC)'')), 1) \<and>
   ExecuteCommand (server crowd) (plugin_with_cap 200) (ask ''zed'') =
     Some (Inl (Panic ''time: missing Location in call to Time.In''), 1)"
proof (intro conjI)
  show "location (server crowd) (member ''zed'' ''Mars/Olympus'') = None"
    by (simp add: sample_defs)
  show "map fst (usersByTimezone (server crowd) crowd) = [''UTC'']"
    by code_simp
  show "map (length \<circ> snd) (usersByTimezone (server crowd) crowd) = [51]"
    by code_simp
  show "ExecuteCommand (server crowd) (plugin_with_cap 200) (ask ''user0'') =
     Some (Inr (reply (plugin_with_cap 200) (ask ''user0'')
       (header @ newline @ ''- user0 and 50 others: 7:00am - 10:00pm (UTC)'')), 1)"
    by code_simp
  show "ExecuteCommand (server crowd) (plugin_with_cap 200) (ask ''zed'') =
     Some (Inl (Panic ''time: missing Location in call to Time.In''), 1)"
    by code_simp
qed

text \<open>
  Claim C7. When the command has fetched the members without an error and
  \<^verbatim>\<open>window\<close> reports an overlap for a list that is not empty, the reply is the header
  followed by the verbose listing when there are at most 50 members, and by the compact
  listing (or its panic) when there are more than 50; moving the invoker to the front
  does not change the count.
\<close>

theorem display_mode_by_member_count:
  assumes "Fields (Command args) = ''/whentochat'' # rest"
    and "allUsers env (ChannelId args) (MaxChannelMembers p) = Some (users, None, calls)"
    and "window env users = (start, end, True)"
    and "users \<noteq> [] \<or> start < end"
  shows "\<exists>arranged. arrangeUserFirst (UserId args) users = Inr arranged \<and>
           length arranged = length users \<and>
           ExecuteCommand env p args =
             Some (if length users \<le> 50
                   then Inr (reply p args (header @ verboseDisplay env start end arranged))
                   else (case compactDisplay env start end arranged of
                           Inl e \<Rightarrow> Inl e
                         | Inr message \<Rightarrow> Inr (reply p args (header @ message))),
                   calls)"
proof -
  from assms(3,4) have ne: "users \<noteq> []"
    using window_empty_list [of env] by auto
  from indexOfUser_bound [OF ne, of "UserId args"]
  obtain arranged where arr: "arrangeUserFirst (UserId args) users = Inr arranged"
    and len: "length arranged = length users"
    by (auto simp: arrangeUserFirst_def Let_def)
  have "respond env p args users None =
          (if length users \<le> 50
           then Inr (reply p args (header @ verboseDisplay env start end arranged))
           else (case compactDisplay env start end arranged of
                   Inl e \<Rightarrow> Inl e
                 | Inr message \<Rightarrow> Inr (reply p args (header @ message))))"
    using assms(3) arr len
    by (simp add: respond_def display_def maxDisplayUserBullets_def)
  with assms(1,2) have "ExecuteCommand env p args =
             Some (if length users \<le> 50
                   then Inr (reply p args (header @ verboseDisplay env start end arranged))
                   else (case compactDisplay env start end arranged of
                           Inl e \<Rightarrow> Inl e
                         | Inr message \<Rightarrow> Inr (reply p args (header @ message))),
                   calls)"
    by (simp add: ExecuteCommand_def)
  with arr len show ?thesis by blast
qed

text \<open>
  Claim C7 at a channel of three members (verbose) and at one of 51 members (compact).
\<close>

theorem display_mode_by_member_count_witness:
  "(\<exists>arranged. arrangeUserFirst (UserId (ask ''bob'')) trio = Inr arranged \<and>
      length arranged = length trio \<and>
      ExecuteCommand (server trio) (plugin_with_cap 200) (ask ''bob'') =
        Some (Inr (reply (plugin_with_cap 200) (ask ''bob'')
                (header @ verboseDisplay (server trio) 63849625200 63849646800 arranged)), 1)) \<and>
   (\<exists>arranged. arrangeUserFirst (UserId (ask ''user0'')) crowd = Inr arranged \<and>
      length arranged = length crowd \<and>
      ExecuteCommand (server crowd) (plugin_with_cap 200) (ask ''user0'') =
        Some (case compactDisplay (server crowd) 63849625200 63849679200 arranged of
                Inl e \<Rightarrow> Inl e
              | Inr message \<Rightarrow> Inr (reply (plugin_with_cap 200) (ask ''user0'') (header @ message)), 1))"
proof -
  have t: "trio \<noteq> [] \<or> (63849625200 :: int) < 63849646800"
    and c: "crowd \<noteq> [] \<or> (63849625200 :: int) < 63849679200" by simp_all
  have lt: "length trio \<le> 50" by (simp add: trio_def)
  have lc: "\<not> length crowd \<le> 50" by (simp add: length_crowd)
  note a = display_mode_by_member_count [OF Fields_ask allUsers_trio window_trio t]
  note b = display_mode_by_member_count [OF Fields_ask allUsers_crowd window_crowd c]
  from a [of "''bob''"] lt b [of "''user0''"] lc show ?thesis by simp
qed

section \<open>Results: Paging and the cap\<close>

lemma gathered_Suc: "gathered batch page (Suc n) = nonBots (batch page) @ gathered batch (Suc page) n"
proof -
  have "page < page + Suc n" by simp
  then have "[page..<page + Suc n] = page # [Suc page..<page + Suc n]" by (rule upt_conv_Cons)
  moreover have "page + Suc n = Suc page + n" by simp
  ultimately have e: "[page..<page + Suc n] = page # [Suc page..<Suc page + n]" by (simp only:)
  show ?thesis unfolding gathered_def e by simp
qed

lemma allUsers_loop_over_cap:
  assumes "\<forall>j \<le> k. GetUsersInChannel env channelID (page + j) batchSize = Inr (batch (page + j))"
    and "\<forall>j < k. \<not> length (batch (page + j)) < batchSize"
    and "\<forall>j < k. int (length (acc @ gathered batch page (Suc j))) \<le> limit"
    and "int (length (acc @ gathered batch page (Suc k))) > limit"
  shows "allUsers_loop env channelID limit page acc =
           Some (acc @ gathered batch page (Suc k), Some errMaxChannelMembers, Suc (page + k))"
  using assms
proof (induction k arbitrary: page acc)
  case 0
  then have "GetUsersInChannel env channelID page batchSize = Inr (batch page)" by simp
  moreover from 0 have "int (length (acc @ nonBots (batch page))) > limit"
    by (simp add: gathered_def)
  ultimately show ?case
    by (subst allUsers_loop.simps) (simp add: gathered_def)
next
  case (Suc k)
  let ?acc = "acc @ nonBots (batch page)"
  from Suc.prems(1) have here: "GetUsersInChannel env channelID page batchSize = Inr (batch page)"
    by (metis add.right_neutral le0)
  from Suc.prems(2) have full: "\<not> length (batch page) < batchSize"
    by (metis add.right_neutral zero_less_Suc)
  from Suc.prems(3) have "int (length (acc @ gathered batch page (Suc 0))) \<le> limit" by blast
  then have under: "\<not> int (length ?acc) > limit" by (simp add: gathered_def)
  have step: "allUsers_loop env channelID limit page acc = allUsers_loop env channelID limit (Suc page) ?acc"
    using here full under by (subst allUsers_loop.simps) simp
  have a1: "\<forall>j \<le> k. GetUsersInChannel env channelID (Suc page + j) batchSize = Inr (batch (Suc page + j))"
    using Suc.prems(1) by (metis Suc_le_mono add_Suc_shift)
  have a2: "\<forall>j < k. \<not> length (batch (Suc page + j)) < batchSize"
    using Suc.prems(2) by (metis Suc_less_eq add_Suc_shift)
  have a3: "\<forall>j < k. int (length (?acc @ gathered batch (Suc page) (Suc j))) \<le> limit"
  proof (intro allI impI)
    fix j assume "j < k"
    then have "Suc j < Suc k" by simp
    with Suc.prems(3) have "int (length (acc @ gathered batch page (Suc (Suc j)))) \<le> limit" by blast
    then show "int (length (?acc @ gathered batch (Suc page) (Suc j))) \<le> limit"
      by (simp add: gathered_Suc [of batch page "Suc j"])
  qed
  have a4: "int (length (?acc @ gathered batch (Suc page) (Suc k))) > limit"
    using Suc.prems(4) by (simp add: gathered_Suc [of batch page "Suc k"])
  from Suc.IH [OF a1 a2 a3 a4] step show ?case
    by (simp add: gathered_Suc [of batch page "Suc k"])
qed

text \<open>
  Claim C8. When pages 0 to \<open>k\<close> are delivered, the pages before \<open>k\<close> are full and
  keep the running total of members that are not bots within the cap, and page \<open>k\<close>
  takes the total over the cap, then \<^verbatim>\<open>allUsers\<close> returns after exactly \<open>k + 1\<close>
  calls with the over-cap error, and the command sends the fixed message and nothing
  else, whatever the clock and the zone database are.
\<close>

theorem over_cap_stops_paging:
  assumes "Fields (Command args) = ''/whentochat'' # rest"
    and "\<forall>j \<le> k. GetUsersInChannel env (ChannelId args) j batchSize = Inr (batch j)"
    and "\<forall>j < k. \<not> length (batch j) < batchSize"
    and "\<forall>j < k. int (length (gathered batch 0 (Suc j))) \<le> MaxChannelMembers p"
    and "int (length (gathered batch 0 (Suc k))) > MaxChannelMembers p"
  shows "allUsers env (ChannelId args) (MaxChannelMembers p) =
           Some (gathered batch 0 (Suc k), Some errMaxChannelMembers, Suc k) \<and>
         ExecuteCommand env p args = Some (Inr (reply p args ''Too many channel members.''), Suc k)"
proof -
  have "allUsers_loop env (ChannelId args) (MaxChannelMembers p) 0 [] =
          Some ([] @ gathered batch 0 (Suc k), Some errMaxChannelMembers, Suc (0 + k))"
    using assms(2-5) by (intro allUsers_loop_over_cap) simp_all
  then have fetch: "allUsers env (ChannelId args) (MaxChannelMembers p) =
           Some (gathered batch 0 (Suc k), Some errMaxChannelMembers, Suc k)"
    by (simp add: allUsers_def)
  with assms(1) show ?thesis
    by (simp add: ExecuteCommand_def respond_def)
qed

text \<open>
  Claim C8 at a cap of 2, a first page of a hundred bots and a second page of three
  members: two calls, then the fixed message.
\<close>

theorem over_cap_stops_paging_witness:
  "allUsers (server (replicate 100 robot @ trio)) (ChannelId (ask ''ann''))
       (MaxChannelMembers (plugin_with_cap 2)) = Some (trio, Some errMaxChannelMembers, 2) \<and>
   ExecuteCommand (server (replicate 100 robot @ trio)) (plugin_with_cap 2) (ask ''ann'') =
     Some (Inr (reply (plugin_with_cap 2) (ask ''ann'') ''Too many channel members.''), 2)"
proof -
  let ?members = "replicate 100 robot @ trio"
  let ?batch = "\<lambda>j. take 100 (drop (j * 100) ?members)"
  have b0: "?batch 0 = replicate 100 robot" by simp
  have b1: "?batch 1 = trio" by (simp add: trio_def)
  have g1: "gathered ?batch 0 (Suc 0) = []"
    unfolding gathered_Suc by (simp add: gathered_def nonBots_robots)
  have g2: "gathered ?batch 0 (Suc 1) = trio"
    unfolding gathered_Suc b0 using b1 by (simp add: gathered_def nonBots_robots nonBots_trio)
  have pages: "\<forall>j \<le> 1. GetUsersInChannel (server ?members) (ChannelId (ask ''ann'')) j batchSize = Inr (?batch j)"
    by (simp add: server_def batchSize_def)
  have full: "\<forall>j < 1. \<not> length (?batch j) < batchSize"
    by (simp add: batchSize_def)
  have under: "\<forall>j < 1. int (length (gathered ?batch 0 (Suc j))) \<le> MaxChannelMembers (plugin_with_cap 2)"
    using g1 by (simp add: plugin_with_cap_def)
  have over: "int (length (gathered ?batch 0 (Suc 1))) > MaxChannelMembers (plugin_with_cap 2)"
    unfolding g2 by (simp add: plugin_with_cap_def trio_def)
  from over_cap_stops_paging [OF Fields_ask pages full under over] g2
  show ?thesis by simp
qed

section \<open>Results: Resolving a time zone\<close>

text \<open>
  Claim C9 as it is worded fails for the empty name: a member whose chosen zone name is
  empty (a blank manual name, or no zone settings at all) resolves to UTC, not to unknown.
\<close>

theorem location_empty_name_counterexample:
  "chosen_tz (member ''ann'' '''') = '''' \<and> location (server []) (member ''ann'' '''') = Some UTC \<and>
   chosen_tz \<lparr>Id_user = ''dee'', Username = ''dee'', FirstName = '''', LastName = '''', IsBot = False,
              Timezone = Map.empty\<rparr> = '''' \<and>
   location (server []) \<lparr>Id_user = ''dee'', Username = ''dee'', FirstName = '''', LastName = '''',
              IsBot = False, Timezone = Map.empty\<rparr> \<noteq> None"
  by (simp add: sample_defs)

text \<open>
  Claim C9, amended. The chosen name is the automatic one when the flag parses as true
  and the manual one otherwise, also when the flag is missing or does not parse. The
  resolver returns a location or unknown and never an error; it returns unknown exactly
  when the chosen name is not empty, is neither \<^verbatim>\<open>UTC\<close> nor \<^verbatim>\<open>Local\<close>, and
  is not in the zone database. An empty chosen name resolves to UTC.
\<close>

theorem location_unknown_iff:
  "chosen_tz user =
     (if ParseBool (index_map (Timezone user) ''useAutomaticTimezone'') = Some True
      then index_map (Timezone user) ''automaticTimezone''
      else index_map (Timezone user) ''manualTimezone'') \<and>
   (location env user = None \<longleftrightarrow>
      chosen_tz user \<noteq> '''' \<and> chosen_tz user \<noteq> ''UTC'' \<and> chosen_tz user \<noteq> ''Local'' \<and>
      tzdata env (chosen_tz user) = None) \<and>
   (chosen_tz user = '''' \<longrightarrow> location env user = Some UTC)"
  by (auto simp: chosen_tz_def useAutomatic_def location_def LoadLocation_def split: option.splits)

text \<open>
  Claim C9, amended, at a member with a zone name the database does not know and at a
  member with a blank zone name.
\<close>

theorem location_unknown_iff_witness:
  "location (server []) (member ''cy'' ''Mars/Olympus'') = None \<and>
   chosen_tz (member ''cy'' ''Mars/Olympus'') = ''Mars/Olympus'' \<and>
   tzdata (server []) ''Mars/Olympus'' = None \<and>
   chosen_tz (member ''ann'' '''') = '''' \<and>
   location (server []) (member ''ann'' '''') = Some UTC"
proof -
  have c: "chosen_tz (member ''cy'' ''Mars/Olympus'') = ''Mars/Olympus''"
    and d: "tzdata (server []) ''Mars/Olympus'' = None"
    and e: "chosen_tz (member ''ann'' '''') = ''''"
    by (simp_all add: sample_defs)
  from location_unknown_iff [of "member ''cy'' ''Mars/Olympus''" "server []"] c d
  have "location (server []) (member ''cy'' ''Mars/Olympus'') = None" by simp
  moreover from location_unknown_iff [of "member ''ann'' ''''" "server []"] e
  have "location (server []) (member ''ann'' '''') = Some UTC" by blast
  ultimately show ?thesis using c d e by simp
qed

end
